theory Spec2Isabelle
  imports Complex_Main "HOL-Library.Multiset"
begin

section \<open>Errors, assertions and the particle vector\<close>

text \<open>
  The C++ sources (\<^verbatim>\<open>core.h\<close>, \<^verbatim>\<open>molecule.h\<close>) signal failure in three ways, each of
  which is a value of \<open>error\<close> here:
  \<^item> \<^verbatim>\<open>throw std::runtime_error(msg)\<close> becomes \<open>RuntimeError msg\<close>, and
    \<^verbatim>\<open>std::vector::at\<close> out of range becomes \<open>OutOfRange\<close>;
  \<^item> a failing \<^verbatim>\<open>assert\<close> aborts, but only when the translation unit is compiled without
    \<^verbatim>\<open>NDEBUG\<close>. Every function with an \<^verbatim>\<open>assert\<close> therefore takes a flag \<open>dbg\<close>: with
    \<open>dbg = True\<close> the assertion is checked and gives \<open>AssertionFailed\<close>, with
    \<open>dbg = False\<close> it is skipped, as the macro expands to nothing;
  \<^item> what C++ leaves undefined (an invalid range handed to \<^verbatim>\<open>std::rotate\<close>, a read or write
    through an iterator outside the vector) becomes \<open>UndefinedBehaviour\<close>.
\<close>

datatype error =
    AssertionFailed
  | RuntimeError string
  | OutOfRange
  | TypeError
  | UndefinedBehaviour

text \<open>
  A \<^verbatim>\<open>std::vector<T>\<close> is its storage address \<open>base\<close> (in units of elements), its capacity
  \<open>cap\<close> and its elements. A \<^verbatim>\<open>std::vector<T>::iterator\<close> is an address, an \<open>int\<close>;
  arithmetic on iterators is unchecked, as on the pointers they wrap, and only reading or
  writing through one is checked against the vector.
\<close>

record 'a vec =
  base :: int
  cap :: nat
  elems :: "'a list"

definition vbegin :: "'a vec \<Rightarrow> int" where
  "vbegin v = base v"

definition vend :: "'a vec \<Rightarrow> int" where
  "vend v = base v + int (length (elems v))"

definition deref :: "'a vec \<Rightarrow> int \<Rightarrow> error + 'a" where
  "deref v it =
     (if vbegin v \<le> it \<and> it < vend v then Inr (elems v ! nat (it - base v))
      else Inl UndefinedBehaviour)"

definition assign :: "'a vec \<Rightarrow> int \<Rightarrow> 'a \<Rightarrow> error + 'a vec" where
  "assign v it a =
     (if vbegin v \<le> it \<and> it < vend v
      then Inr (v\<lparr>elems := (elems v)[nat (it - base v) := a]\<rparr>)
      else Inl UndefinedBehaviour)"

text \<open>
  \<^verbatim>\<open>std::rotate(first, middle, last)\<close> requires \<open>[first, middle)\<close> and \<open>[middle, last)\<close> to be
  valid ranges and makes \<open>middle\<close> the first element of \<open>[first, last)\<close>.
\<close>

definition std_rotate :: "'a vec \<Rightarrow> int \<Rightarrow> int \<Rightarrow> int \<Rightarrow> error + 'a vec" where
  "std_rotate v f m l =
     (if vbegin v \<le> f \<and> f \<le> m \<and> m \<le> l \<and> l \<le> vend v then
        let b = nat (f - base v); k = nat (m - base v); e = nat (l - base v);
            xs = elems v
        in Inr (v\<lparr>elems := take b xs @ drop k (take e xs) @ drop b (take k xs) @ drop e xs\<rparr>)
      else Inl UndefinedBehaviour)"

section \<open>IterRange and ElasticRange\<close>

text \<open>
  \<^verbatim>\<open>IterRange<T>\<close> is a \<^verbatim>\<open>std::pair<T,T>\<close> of iterators; \<^verbatim>\<open>begin()\<close> is \<open>first\<close> and
  \<^verbatim>\<open>end()\<close> is \<open>second\<close>. \<^verbatim>\<open>size()\<close> is \<^verbatim>\<open>std::distance(first, second)\<close>, the signed
  difference of the two addresses (its conversion to \<^verbatim>\<open>size_t\<close> is the identity whenever
  \<open>first \<le> second\<close>). \<^verbatim>\<open>resize(n)\<close> is \<^verbatim>\<open>end() += n; assert(size()==n);\<close>.
\<close>

record iter_range =
  first :: int
  second :: int

definition size_r :: "'z iter_range_scheme \<Rightarrow> int" where
  "size_r r = second r - first r"

definition resize :: "bool \<Rightarrow> 'z iter_range_scheme \<Rightarrow> int \<Rightarrow> error + 'z iter_range_scheme" where
  "resize dbg r n =
     (let r' = r\<lparr>second := second r + n\<rparr>
      in if dbg \<and> size_r r' \<noteq> n then Inl AssertionFailed else Inr r')"

definition empty_r :: "'z iter_range_scheme \<Rightarrow> bool" where
  "empty_r r \<longleftrightarrow> first r = second r"

text \<open>
  \<^verbatim>\<open>ElasticRange<T>\<close> derives from \<^verbatim>\<open>IterRange\<close> and adds \<^verbatim>\<open>_trueend\<close>. The constructor
  \<^verbatim>\<open>ElasticRange(begin, end)\<close> sets \<^verbatim>\<open>_trueend(end)\<close>. The member functions below
  read \<^verbatim>\<open>_trueend\<close> directly. (The accessor \<^verbatim>\<open>trueend()\<close> is declared to return \<^verbatim>\<open>T&\<close> and
  returns the iterator, which is ill-typed; it is not modelled, and neither is its one
  user \<^verbatim>\<open>Space::push_back\<close>, which cannot be instantiated for that reason.)
\<close>

record elastic_range = iter_range +
  trueend :: int

definition ElasticRange :: "int \<Rightarrow> int \<Rightarrow> elastic_range" where
  "ElasticRange b e = \<lparr>first = b, second = e, trueend = e\<rparr>"

definition capacity :: "'z elastic_range_scheme \<Rightarrow> int" where
  "capacity r = trueend r - first r"

definition inactive :: "'z elastic_range_scheme \<Rightarrow> iter_range" where
  "inactive r = \<lparr>first = second r, second = trueend r\<rparr>"

text \<open>
  \<^verbatim>\<open>deactivate(first, last)\<close>: \<^verbatim>\<open>n = distance(first, last)\<close>, the two assertions (the first,
  \<^verbatim>\<open>n>=0\<close> on a \<^verbatim>\<open>size_t\<close>, cannot fail), \<^verbatim>\<open>std::rotate(begin(), last, end())\<close>,
  \<^verbatim>\<open>end() -= n\<close> and the closing assertion. The range does not own the elements: the vector
  it points into is passed and returned.
\<close>

definition deactivate ::
  "bool \<Rightarrow> 'a vec \<Rightarrow> 'z elastic_range_scheme \<Rightarrow> int \<Rightarrow> int
     \<Rightarrow> error + ('a vec \<times> 'z elastic_range_scheme)" where
  "deactivate dbg v r f l =
     (let n = l - f in
      if dbg \<and> \<not> (f \<ge> first r \<and> l \<le> second r) then Inl AssertionFailed
      else case std_rotate v (first r) l (second r) of
             Inl e \<Rightarrow> Inl e
           | Inr v' \<Rightarrow>
               let r' = r\<lparr>second := second r - n\<rparr>
               in if dbg \<and> size_r r' + size_r (inactive r') \<noteq> capacity r'
                  then Inl AssertionFailed else Inr (v', r'))"

text \<open>
  \<^verbatim>\<open>activate(first, last)\<close>: \<^verbatim>\<open>std::rotate(end(), first, _trueend)\<close>, \<^verbatim>\<open>end() += n\<close> and the
  closing assertion.
\<close>

definition activate ::
  "bool \<Rightarrow> 'a vec \<Rightarrow> 'z elastic_range_scheme \<Rightarrow> int \<Rightarrow> int
     \<Rightarrow> error + ('a vec \<times> 'z elastic_range_scheme)" where
  "activate dbg v r f l =
     (let n = l - f in
      case std_rotate v (second r) f (trueend r) of
        Inl e \<Rightarrow> Inl e
      | Inr v' \<Rightarrow>
          let r' = r\<lparr>second := second r + n\<rparr>
          in if dbg \<and> size_r r' + size_r (inactive r') \<noteq> capacity r'
             then Inl AssertionFailed else Inr (v', r'))"

text \<open>The elements between two iterators, read from the vector.\<close>

definition slice :: "'a vec \<Rightarrow> int \<Rightarrow> int \<Rightarrow> 'a list" where
  "slice v a b = drop (nat (a - base v)) (take (nat (b - base v)) (elems v))"

definition active :: "'a vec \<Rightarrow> 'z iter_range_scheme \<Rightarrow> 'a list" where
  "active v r = slice v (first r) (second r)"

definition window :: "'a vec \<Rightarrow> 'z elastic_range_scheme \<Rightarrow> 'a list" where
  "window v r = slice v (first r) (trueend r)"

text \<open>A sequence of calls on one elastic range; the first failure ends it.\<close>

datatype call = Deactivate int int | Activate int int

fun apply_call ::
  "bool \<Rightarrow> 'a vec \<Rightarrow> 'z elastic_range_scheme \<Rightarrow> call
     \<Rightarrow> error + ('a vec \<times> 'z elastic_range_scheme)" where
  "apply_call dbg v r (Deactivate f l) = deactivate dbg v r f l"
| "apply_call dbg v r (Activate f l) = activate dbg v r f l"

fun run_calls ::
  "bool \<Rightarrow> 'a vec \<Rightarrow> 'z elastic_range_scheme \<Rightarrow> call list
     \<Rightarrow> error + ('a vec \<times> 'z elastic_range_scheme)" where
  "run_calls dbg v r [] = Inr (v, r)"
| "run_calls dbg v r (c # cs) =
     (case apply_call dbg v r c of
        Inl e \<Rightarrow> Inl e
      | Inr (v', r') \<Rightarrow> run_calls dbg v' r' cs)"

text \<open>
  The span preconditions: \<^verbatim>\<open>deactivate\<close> takes a span of the active part
  \<open>[begin, end)\<close>, \<^verbatim>\<open>activate\<close> a span of the inactive part \<open>[end, trueend)\<close>.
  \<open>spans_ok\<close> asks for the precondition of every call in the state it is made in.
\<close>

fun span_ok :: "'z elastic_range_scheme \<Rightarrow> call \<Rightarrow> bool" where
  "span_ok r (Deactivate f l) \<longleftrightarrow> first r \<le> f \<and> f \<le> l \<and> l \<le> second r"
| "span_ok r (Activate f l) \<longleftrightarrow> second r \<le> f \<and> f \<le> l \<and> l \<le> trueend r"

fun spans_ok :: "bool \<Rightarrow> 'a vec \<Rightarrow> 'z elastic_range_scheme \<Rightarrow> call list \<Rightarrow> bool" where
  "spans_ok dbg v r [] \<longleftrightarrow> True"
| "spans_ok dbg v r (c # cs) \<longleftrightarrow>
     span_ok r c \<and>
     (case apply_call dbg v r c of
        Inl e \<Rightarrow> True
      | Inr (v', r') \<Rightarrow> spans_ok dbg v' r' cs)"

text \<open>An elastic range is well placed when it lies inside its vector, in order.\<close>

definition range_in :: "'a vec \<Rightarrow> 'z elastic_range_scheme \<Rightarrow> bool" where
  "range_in v r \<longleftrightarrow>
     vbegin v \<le> first r \<and> first r \<le> second r \<and> second r \<le> trueend r \<and> trueend r \<le> vend v"

section \<open>Group\<close>

text \<open>
  \<^verbatim>\<open>Eigen::Vector3d\<close>, three \<^verbatim>\<open>double\<close>s. A finite \<^verbatim>\<open>double\<close> is the real number it
  denotes; infinities and NaN are not values of the model. Comparison and negation of
  doubles are exact. Every other arithmetic operation on doubles returns the exact result
  rounded to a double: the rounding \<open>rnd\<close> of the floating-point unit is an argument of
  each function that computes, so \<^verbatim>\<open>a - b\<close> is \<open>rnd (a - b)\<close>.
\<close>

datatype point = Point (px: real) (py: real) (pz: real)

definition point_minus :: "(real \<Rightarrow> real) \<Rightarrow> point \<Rightarrow> point \<Rightarrow> point" where
  "point_minus rnd a b = Point (rnd (px a - px b)) (rnd (py a - py b)) (rnd (pz a - pz b))"

definition point_scale :: "(real \<Rightarrow> real) \<Rightarrow> point \<Rightarrow> real \<Rightarrow> point" where
  "point_scale rnd a c = Point (rnd (px a * c)) (rnd (py a * c)) (rnd (pz a * c))"

definition cwiseInverse :: "(real \<Rightarrow> real) \<Rightarrow> point \<Rightarrow> point" where
  "cwiseInverse rnd a = Point (rnd (1 / px a)) (rnd (1 / py a)) (rnd (1 / pz a))"

text \<open>
  \<^verbatim>\<open>Group<T>\<close> derives from \<^verbatim>\<open>ElasticRange<T>\<close> and adds the molecule id (\<^verbatim>\<open>id\<close> in the
  source), the atomic flag and the mass center. \<^verbatim>\<open>Group(begin, end)\<close> leaves the three at
  their member initialisers.
\<close>

record group = elastic_range +
  group_id :: int
  atomic :: bool
  cm :: point

definition Group :: "int \<Rightarrow> int \<Rightarrow> group" where
  "Group b e =
     \<lparr>first = b, second = e, trueend = e, group_id = - 1, atomic = False, cm = Point 0 0 0\<rparr>"

text \<open>
  \<^verbatim>\<open>Group::operator=\<close>: throws on a capacity mismatch, then \<^verbatim>\<open>this->resize(o.size())\<close> and the
  three field copies. The \<^verbatim>\<open>std::copy\<close> of the elements is commented out in the source.
\<close>

definition group_assign :: "bool \<Rightarrow> group \<Rightarrow> group \<Rightarrow> error + group" where
  "group_assign dbg g og =
     (if capacity g \<noteq> capacity og then Inl (RuntimeError ''capacity mismatch'')
      else case resize dbg g (size_r og) of
             Inl e \<Rightarrow> Inl e
           | Inr g' \<Rightarrow> Inr (g'\<lparr>group_id := group_id og, atomic := atomic og, cm := cm og\<rparr>))"

section \<open>Change\<close>

record change_data =
  index :: int
  all :: bool
  atoms :: "int list"
  activated :: "(int \<times> int) list"
  deactivated :: "(int \<times> int) list"

record change =
  dV :: real
  touched_groups :: "change_data list"

text \<open>
  The member \<^verbatim>\<open>groups\<close> of \<^verbatim>\<open>Change\<close> is \<open>touched_groups\<close> here, since \<^verbatim>\<open>Space\<close> has a
  member of the same name. \<^verbatim>\<open>Change::empty\<close> is two nested \<^verbatim>\<open>if\<close>s and a final
  \<^verbatim>\<open>return false\<close>; \<^verbatim>\<open>Change::clear\<close> ends with \<^verbatim>\<open>assert(empty())\<close>.
\<close>

definition change_empty :: "change \<Rightarrow> bool" where
  "change_empty c =
     (if touched_groups c = [] then (if \<bar>dV c\<bar> > 0 then True else False) else False)"

definition change_clear :: "bool \<Rightarrow> change \<Rightarrow> error + change" where
  "change_clear dbg c =
     (let c' = c\<lparr>dV := 0, touched_groups := []\<rparr>
      in if dbg \<and> \<not> change_empty c' then Inl AssertionFailed else Inr c')"

section \<open>Space\<close>

record ('g, 'a) space =
  p :: "'a vec"
  groups :: "group list"
  geo :: 'g

text \<open>\<^verbatim>\<open>std::vector::at\<close> with an \<^verbatim>\<open>int\<close> index: a negative index converts to a huge
  \<^verbatim>\<open>size_t\<close> and is out of range.\<close>

definition at_idx :: "'b list \<Rightarrow> int \<Rightarrow> error + 'b" where
  "at_idx xs i = (if 0 \<le> i \<and> i < int (length xs) then Inr (xs ! nat i) else Inl OutOfRange)"

text \<open>
  The loop \<^verbatim>\<open>for (auto i : m.atoms) *(go.begin()+i) = *(gn.begin()+i);\<close> of \<^verbatim>\<open>sync\<close>: \<open>pv\<close>
  is the particle vector of this Space, \<open>po\<close> that of the other.
\<close>

fun copy_atoms :: "'a vec \<Rightarrow> 'a vec \<Rightarrow> int \<Rightarrow> int \<Rightarrow> int list \<Rightarrow> error + 'a vec" where
  "copy_atoms pv po gob gnb [] = Inr pv"
| "copy_atoms pv po gob gnb (i # is) =
     (case deref po (gnb + i) of
        Inl e \<Rightarrow> Inl e
      | Inr a \<Rightarrow>
          (case assign pv (gob + i) a of
             Inl e \<Rightarrow> Inl e
           | Inr pv' \<Rightarrow> copy_atoms pv' po gob gnb is))"

text \<open>
  \<^verbatim>\<open>std::copy(gn.begin(), gn.end(), go.begin())\<close>: element by element from the front; a
  source range with \<^verbatim>\<open>end\<close> before \<^verbatim>\<open>begin\<close> is not a range.
\<close>

definition std_copy :: "'a vec \<Rightarrow> int \<Rightarrow> int \<Rightarrow> 'a vec \<Rightarrow> int \<Rightarrow> error + 'a vec" where
  "std_copy po f l pv d =
     (if f \<le> l then copy_atoms pv po d f (map int [0 ..< nat (l - f)])
      else Inl UndefinedBehaviour)"

text \<open>
  \<^verbatim>\<open>Space::sync\<close>. Its second assertion compares \<^verbatim>\<open>go.size()\<close>, a \<^verbatim>\<open>size_t\<close>, with the
  iterator that \<^verbatim>\<open>std::max_element\<close> returns, for which there is no \<^verbatim>\<open>operator<\<close>: the member
  function can only be instantiated where \<^verbatim>\<open>assert\<close> expands to nothing. It is therefore
  modelled with \<^verbatim>\<open>NDEBUG\<close> defined, which also holds for the \<^verbatim>\<open>resize\<close> that
  \<^verbatim>\<open>go = gn\<close> calls. \<^verbatim>\<open>go\<close> is a reference into \<^verbatim>\<open>groups\<close>, so the assignment updates the
  list.
\<close>

fun sync_groups ::
  "('g, 'a) space \<Rightarrow> ('g, 'a) space \<Rightarrow> change_data list \<Rightarrow> error + ('g, 'a) space" where
  "sync_groups s os [] = Inr s"
| "sync_groups s os (m # ms) =
     (case at_idx (groups s) (index m) of
        Inl e \<Rightarrow> Inl e
      | Inr go \<Rightarrow>
     (case at_idx (groups os) (index m) of
        Inl e \<Rightarrow> Inl e
      | Inr gn \<Rightarrow>
     (case group_assign False go gn of
        Inl e \<Rightarrow> Inl e
      | Inr go' \<Rightarrow>
     (case (if all m then std_copy (p os) (first gn) (second gn) (p s) (first go')
            else copy_atoms (p s) (p os) (first go') (first gn) (atoms m)) of
        Inl e \<Rightarrow> Inl e
      | Inr pv \<Rightarrow>
          sync_groups (s\<lparr>p := pv, groups := (groups s)[nat (index m) := go']\<rparr>) os ms))))"

definition sync :: "('g, 'a) space \<Rightarrow> ('g, 'a) space \<Rightarrow> change \<Rightarrow> error + ('g, 'a) space" where
  "sync s os c = sync_groups s os (touched_groups c)"

text \<open>
  The particle at offset \<open>k\<close> of group number \<open>h\<close>, \<^verbatim>\<open>*(groups[h].begin() + k)\<close>.
\<close>

definition particle_at :: "('g, 'a) space \<Rightarrow> nat \<Rightarrow> int \<Rightarrow> error + 'a" where
  "particle_at s h k = deref (p s) (first (groups s ! h) + k)"

text \<open>
  Two Spaces have the same group topology when their particle vectors have the same length
  and their groups have the same windows, as offsets from \<^verbatim>\<open>p.begin()\<close>. The windows of a
  Space are in place when each lies inside the particle vector and no two overlap.
\<close>

definition topology :: "('g, 'a) space \<Rightarrow> (int \<times> int) list" where
  "topology s = map (\<lambda>g. (first g - vbegin (p s), trueend g - vbegin (p s))) (groups s)"

definition same_topology :: "('g, 'a) space \<Rightarrow> ('g, 'a) space \<Rightarrow> bool" where
  "same_topology s os \<longleftrightarrow>
     length (elems (p s)) = length (elems (p os)) \<and> topology s = topology os"

definition windows_in_place :: "('g, 'a) space \<Rightarrow> bool" where
  "windows_in_place s \<longleftrightarrow>
     (\<forall>i < length (groups s).
        vbegin (p s) \<le> first (groups s ! i) \<and> first (groups s ! i) \<le> trueend (groups s ! i) \<and>
        trueend (groups s ! i) \<le> vend (p s) \<and>
        (\<forall>j < length (groups s). i \<noteq> j \<longrightarrow>
           trueend (groups s ! i) \<le> first (groups s ! j) \<or>
           trueend (groups s ! j) \<le> first (groups s ! i)))"

section \<open>Periodic box\<close>

text \<open>
  \<^verbatim>\<open>Geometry::Box\<close> keeps the side lengths, their halves and their inverses, all three set
  by \<^verbatim>\<open>setLength\<close>: \<^verbatim>\<open>len_half = l*0.5\<close> and \<^verbatim>\<open>len_inv = l.cwiseInverse()\<close>, both rounded.
  (The inverse of a zero side is \<open>0\<close> in HOL and infinite in C++; no function below reads
  \<open>len_inv\<close>.)
\<close>

record box =
  len :: point
  len_half :: point
  len_inv :: point

definition setLength :: "(real \<Rightarrow> real) \<Rightarrow> point \<Rightarrow> box \<Rightarrow> box" where
  "setLength rnd l b =
     b\<lparr>len := l, len_half := point_scale rnd l 0.5, len_inv := cwiseInverse rnd l\<rparr>"

text \<open>
  \<^verbatim>\<open>PBC<X,Y,Z>::vdist\<close>; the template arguments are the three arguments after the rounding.
  \<^verbatim>\<open>Point r(a - b)\<close> is three rounded subtractions; \<^verbatim>\<open>r.x() -= len.x()\<close> and
  \<^verbatim>\<open>r.x() += len.x()\<close> round their results; the comparisons with \<^verbatim>\<open>len_half\<close> and its
  negation are exact.
\<close>

definition vdist ::
  "(real \<Rightarrow> real) \<Rightarrow> bool \<Rightarrow> bool \<Rightarrow> bool \<Rightarrow> box \<Rightarrow> point \<Rightarrow> point \<Rightarrow> point" where
  "vdist rnd X Y Z g a b =
     (let r = point_minus rnd a b;
          rx = (if X then
                  (if px r > px (len_half g) then rnd (px r - px (len g))
                   else if px r < - px (len_half g) then rnd (px r + px (len g))
                   else px r)
                else px r);
          ry = (if Y then
                  (if py r > py (len_half g) then rnd (py r - py (len g))
                   else if py r < - py (len_half g) then rnd (py r + py (len g))
                   else py r)
                else py r);
          rz = (if Z then
                  (if pz r > pz (len_half g) then rnd (pz r - pz (len g))
                   else if pz r < - pz (len_half g) then rnd (pz r + pz (len g))
                   else pz r)
                else pz r)
      in Point rx ry rz)"

section \<open>Conformations of a molecule\<close>

text \<open>
  A \<^verbatim>\<open>std::discrete_distribution<>\<close> is the list that \<^verbatim>\<open>probabilities()\<close> returns: index
  \<open>i\<close> is drawn with probability \<open>ps ! i\<close>. Built from fewer than two weights it is the
  one-point distribution \<open>[1]\<close> (so is the default-constructed one); built from more, each
  weight is divided by their sum.
\<close>

definition discrete_distribution :: "real list \<Rightarrow> real list" where
  "discrete_distribution ws =
     (if length ws < 2 then [1] else map (\<lambda>w. w / sum_list ws) ws)"

text \<open>
  The members of \<^verbatim>\<open>MoleculeData\<close> that \<^verbatim>\<open>pushConformation\<close> and
  \<^verbatim>\<open>getRandomConformation\<close> read or write; \<open>mol_id\<close> is \<^verbatim>\<open>_id\<close>, \<open>mol_name\<close> is
  \<^verbatim>\<open>name\<close>, \<open>mol_atoms\<close> is \<^verbatim>\<open>atoms\<close>.
\<close>

record 'a molecule_data =
  mol_id :: int
  confid :: int
  mol_name :: string
  mol_atoms :: "int list"
  conformations :: "'a list list"
  confDist :: "real list"

definition MoleculeData :: "'a molecule_data" where
  "MoleculeData =
     \<lparr>mol_id = - 1, confid = 0, mol_name = [], mol_atoms = [], conformations = [],
      confDist = discrete_distribution []\<rparr>"

definition pushConformation ::
  "bool \<Rightarrow> 'a molecule_data \<Rightarrow> 'a list \<Rightarrow> real \<Rightarrow> error + 'a molecule_data" where
  "pushConformation dbg m vec weight =
     (let m1 = (if conformations m \<noteq> []
                then m\<lparr>confDist := discrete_distribution (confDist m @ [weight])\<rparr>
                else m);
          m2 = m1\<lparr>conformations := conformations m1 @ [vec]\<rparr>
      in if dbg \<and> length (confDist m2) \<noteq> length (conformations m2)
         then Inl AssertionFailed else Inr m2)"

text \<open>A sequence of \<^verbatim>\<open>pushConformation(vec, weight)\<close> calls.\<close>

fun pushConformations ::
  "bool \<Rightarrow> 'a molecule_data \<Rightarrow> ('a list \<times> real) list \<Rightarrow> error + 'a molecule_data" where
  "pushConformations dbg m [] = Inr m"
| "pushConformations dbg m ((vec, weight) # cs) =
     (case pushConformation dbg m vec weight of
        Inl e \<Rightarrow> Inl e
      | Inr m' \<Rightarrow> pushConformations dbg m' cs)"

text \<open>
  \<^verbatim>\<open>getRandomConformation()\<close>; \<open>k\<close> is the index that \<^verbatim>\<open>confDist(slump.engine)\<close> draws,
  which is \<open>i\<close> with probability \<open>confDist m ! i\<close>. \<^verbatim>\<open>confDist.max()\<close> is the number of
  probabilities less one.
\<close>

definition getRandomConformation ::
  "bool \<Rightarrow> 'a molecule_data \<Rightarrow> nat \<Rightarrow> error + ('a molecule_data \<times> 'a list)" where
  "getRandomConformation dbg m k =
     (if conformations m = [] then
        Inl (RuntimeError (''No configurations for molecule '' @ [CHR 0x27] @ mol_name m @
               [CHR 0x27] @ ''. Perhaps you forgot to specity the '' @ [CHR 0x27] @ ''atomic'' @
               [CHR 0x27] @ '' keyword?''))
      else if dbg \<and> length (confDist m) - 1 \<noteq> length (conformations m) - 1
        then Inl AssertionFailed
      else if dbg \<and> length (mol_atoms m) \<noteq> length (hd (conformations m))
        then Inl AssertionFailed
      else if k < length (conformations m)
        then Inr (m\<lparr>confid := int k\<rparr>, conformations m ! k)
      else Inl OutOfRange)"

text \<open>The probability with which conformation \<open>i\<close> is selected.\<close>

definition selection_probability :: "'a molecule_data \<Rightarrow> nat \<Rightarrow> real" where
  "selection_probability m i = confDist m ! i"

section \<open>JSON, the type lists and the random source\<close>

text \<open>
  A \<^verbatim>\<open>nlohmann::json\<close> value. An object is a \<^verbatim>\<open>std::map\<close>; it is the list of its
  key-value pairs in iteration order.
\<close>

datatype json =
    JNull
  | JBool bool
  | JNumber real
  | JString string
  | JArray "json list"
  | JObject "(string \<times> json) list"

text \<open>
  Every type that the list deserializer is used with (\<^verbatim>\<open>AtomData\<close>, \<^verbatim>\<open>MoleculeData\<close>) has
  an integer behind \<^verbatim>\<open>id()\<close>: it is a record with the field \<open>the_id\<close>, extended by
  whatever else the type holds.
\<close>

record with_id =
  the_id :: int

text \<open>
  \<^verbatim>\<open>from_json(const json&, std::vector<T>&)\<close>. \<open>conv\<close> is the conversion of a one-key
  object to \<^verbatim>\<open>T\<close> that \<^verbatim>\<open>v.push_back(_j)\<close> performs through \<^verbatim>\<open>T\<close>'s own \<^verbatim>\<open>from_json\<close>,
  which may throw. \<^verbatim>\<open>v.reserve\<close> does not change the contents.
\<close>

fun from_json_entries ::
  "(json \<Rightarrow> error + 'z with_id_scheme) \<Rightarrow> (string \<times> json) list \<Rightarrow> 'z with_id_scheme list
     \<Rightarrow> error + 'z with_id_scheme list" where
  "from_json_entries conv [] v = Inr v"
| "from_json_entries conv ((key, val) # kvs) v =
     (case conv (JObject [(key, val)]) of
        Inl e \<Rightarrow> Inl e
      | Inr t \<Rightarrow>
          let v1 = v @ [t];
              v2 = v1[length v1 - 1 := (last v1)\<lparr>the_id := int (length v1) - 1\<rparr>]
          in from_json_entries conv kvs v2)"



text \<open>
  \<^verbatim>\<open>Random\<close> holds a \<^verbatim>\<open>std::mt19937\<close> and the distribution \<^verbatim>\<open>dist01\<close>, which the only
  constructor fixes to \<open>(0,1)\<close> and which keeps no state of its own. The engine is standard
  library code; it enters as a type \<open>'e\<close> of engine states with the library operations
  that the source calls:
  \<^item> \<open>put\<close>, the text that \<^verbatim>\<open>o << r.engine\<close> writes;
  \<^item> \<open>get\<close>, the state that \<^verbatim>\<open>s >> r.engine\<close> reads, \<open>None\<close> when the stream fails;
  \<^item> \<open>canonical\<close>, what \<^verbatim>\<open>dist01(engine)\<close> returns and the state it leaves;
  \<^item> \<open>uniform_int\<close>, the same for \<^verbatim>\<open>std::uniform_int_distribution<int>(min, max)\<close>.
\<close>

record 'e engine_lib =
  put :: "'e \<Rightarrow> string"
  get :: "string \<Rightarrow> 'e option"
  canonical :: "'e \<Rightarrow> real \<times> 'e"
  uniform_int :: "int \<Rightarrow> int \<Rightarrow> 'e \<Rightarrow> int \<times> 'e"

record 'e Random =
  engine :: 'e

text \<open>\<^verbatim>\<open>Random::operator()\<close> and \<^verbatim>\<open>Random::range\<close>.\<close>

definition operator_call :: "'e engine_lib \<Rightarrow> 'e Random \<Rightarrow> real \<times> 'e Random" where
  "operator_call L r = (let (x, e) = canonical L (engine r) in (x, r\<lparr>engine := e\<rparr>))"

definition range :: "'e engine_lib \<Rightarrow> 'e Random \<Rightarrow> int \<Rightarrow> int \<Rightarrow> int \<times> 'e Random" where
  "range L r lo hi = (let (x, e) = uniform_int L lo hi (engine r) in (x, r\<lparr>engine := e\<rparr>))"

text \<open>A sequence of draws from one generator, and the values it returns.\<close>

datatype draw = Call | Range int int

datatype drawn = DReal real | DInt int

fun draws :: "'e engine_lib \<Rightarrow> 'e Random \<Rightarrow> draw list \<Rightarrow> drawn list" where
  "draws L r [] = []"
| "draws L r (Call # ds) = (let (x, r') = operator_call L r in DReal x # draws L r' ds)"
| "draws L r (Range lo hi # ds) = (let (x, r') = range L r lo hi in DInt x # draws L r' ds)"

text \<open>
  \<^verbatim>\<open>j[key] = val\<close> on a \<^verbatim>\<open>json\<close>: a null value becomes an object first, an object gets the
  key set, anything else throws a type error.
\<close>

fun set_key :: "string \<Rightarrow> json \<Rightarrow> (string \<times> json) list \<Rightarrow> (string \<times> json) list" where
  "set_key k x [] = [(k, x)]"
| "set_key k x ((k', y) # kvs) = (if k = k' then (k, x) # kvs else (k', y) # set_key k x kvs)"

definition json_set :: "json \<Rightarrow> string \<Rightarrow> json \<Rightarrow> error + json" where
  "json_set j k x =
     (case j of
        JNull \<Rightarrow> Inr (JObject [(k, x)])
      | JObject kvs \<Rightarrow> Inr (JObject (set_key k x kvs))
      | _ \<Rightarrow> Inl TypeError)"

text \<open>
  \<^verbatim>\<open>j.value(key, std::string())\<close> on an object: the default when the key is absent, a
  type error when its value is not a string.
\<close>

definition value_string :: "(string \<times> json) list \<Rightarrow> string \<Rightarrow> string \<Rightarrow> error + string" where
  "value_string kvs k dflt =
     (case map_of kvs k of
        None \<Rightarrow> Inr dflt
      | Some (JString s) \<Rightarrow> Inr s
      | Some _ \<Rightarrow> Inl TypeError)"

text \<open>\<^verbatim>\<open>to_json(json&, const Random&)\<close>.\<close>

definition to_json_Random :: "'e engine_lib \<Rightarrow> json \<Rightarrow> 'e Random \<Rightarrow> error + json" where
  "to_json_Random L j r = json_set j ''randomseed'' (JString (put L (engine r)))"

text \<open>
  \<^verbatim>\<open>from_json(const json&, Random&)\<close>. \<open>hw\<close> is the engine that
  \<^verbatim>\<open>std::random_device\<close> seeds. The stream throws on failure, and the handler rethrows.
\<close>

definition from_json_Random ::
  "'e engine_lib \<Rightarrow> 'e \<Rightarrow> json \<Rightarrow> 'e Random \<Rightarrow> error + 'e Random" where
  "from_json_Random L hw j r =
     (case j of
        JObject kvs \<Rightarrow>
          (case value_string kvs ''randomseed'' [] of
             Inl e \<Rightarrow> Inl e
           | Inr seed \<Rightarrow>
               if seed = ''hardware'' then Inr (r\<lparr>engine := hw\<rparr>)
               else if seed \<noteq> [] then
                 (case get L seed of
                    None \<Rightarrow> Inl (RuntimeError ''basic_ios::clear'')
                  | Some e \<Rightarrow> Inr (r\<lparr>engine := e\<rparr>))
               else Inr r)
      | _ \<Rightarrow> Inr r)"

section \<open>Elastic range: the invariant\<close>

lemma take_drop_split3:
  assumes "b \<le> k" "k \<le> e" "e \<le> length xs"
  shows "xs = take b xs @ drop b (take k xs) @ drop k (take e xs) @ drop e xs"
proof -
  have "take k xs = take b xs @ drop b (take k xs)"
    using assms by (metis append_take_drop_id min.absorb1 take_take)
  moreover have "take e xs = take k xs @ drop k (take e xs)"
    using assms by (metis append_take_drop_id min.absorb1 take_take)
  moreover have "xs = take e xs @ drop e xs" by simp
  ultimately show ?thesis by (metis append.assoc)
qed

lemma window_of_four:
  assumes "a \<le> length A" "length A + length B + length C \<le> t"
  shows "drop a (take t (A @ B @ C @ D)) = drop a A @ B @ C @ take (t - (length A + length B + length C)) D"
  using assms by simp


lemma rotate_window_mset:
  assumes "a \<le> b" "b \<le> k" "k \<le> e" "e \<le> t" "t \<le> length xs"
  shows "mset (drop a (take t (take b xs @ drop k (take e xs) @ drop b (take k xs) @ drop e xs)))
       = mset (drop a (take t xs))"
proof -
  define A where "A = take b xs"
  define B where "B = drop b (take k xs)"
  define C where "C = drop k (take e xs)"
  define D where "D = drop e xs"
  have lens: "length A = b" "length B = k - b" "length C = e - k"
    using assms by (simp_all add: A_def B_def C_def)
  have xs: "xs = A @ B @ C @ D"
    unfolding A_def B_def C_def D_def using assms by (intro take_drop_split3) auto
  have "a \<le> length A" "length A + length C + length B \<le> t" "length A + length B + length C \<le> t"
    using assms lens by simp_all
  then have e1: "drop a (take t (A @ C @ B @ D)) = drop a A @ C @ B @ take (t - (length A + length C + length B)) D"
    and e2: "drop a (take t (A @ B @ C @ D)) = drop a A @ B @ C @ take (t - (length A + length B + length C)) D"
    by (simp_all only: window_of_four)
  have n: "length A + length C + length B = length A + length B + length C" by simp
  have "mset (drop a (take t (A @ C @ B @ D))) = mset (drop a (take t (A @ B @ C @ D)))"
    unfolding e1 e2 n by simp
  then show ?thesis
    unfolding xs [symmetric] unfolding A_def B_def C_def D_def .
qed


text \<open>
  A rotation inside a window permutes the window: \<^verbatim>\<open>std::rotate\<close> on a valid range succeeds,
  leaves the storage and the length alone, and keeps the multiset of every slice that contains
  the rotated range.
\<close>

lemma std_rotate_ok:
  assumes "vbegin v \<le> f" "f \<le> m" "m \<le> l" "l \<le> vend v"
  shows "\<exists>v'. std_rotate v f m l = Inr v' \<and> base v' = base v \<and> cap v' = cap v \<and>
           length (elems v') = length (elems v) \<and>
           (\<forall>a t. vbegin v \<le> a \<and> a \<le> f \<and> l \<le> t \<and> t \<le> vend v \<longrightarrow>
                  mset (slice v' a t) = mset (slice v a t))"
proof -
  define b where "b = nat (f - base v)"
  define k where "k = nat (m - base v)"
  define e where "e = nat (l - base v)"
  define xs where "xs = elems v"
  define v' where "v' = v\<lparr>elems := take b xs @ drop k (take e xs) @ drop b (take k xs) @ drop e xs\<rparr>"
  have eq: "std_rotate v f m l = Inr v'"
    using assms by (simp add: std_rotate_def Let_def v'_def b_def k_def e_def xs_def)
  have ord: "b \<le> k" "k \<le> e" "e \<le> length xs"
    using assms by (simp_all add: vbegin_def vend_def b_def k_def e_def xs_def)
  have len: "length (elems v') = length (elems v)"
    using ord by (simp add: v'_def xs_def [symmetric])
  have fields: "base v' = base v" "cap v' = cap v"
    by (simp_all add: v'_def)
  have win: "mset (slice v' a t) = mset (slice v a t)"
    if h: "vbegin v \<le> a \<and> a \<le> f \<and> l \<le> t \<and> t \<le> vend v" for a t
  proof -
    have 1: "nat (a - base v) \<le> b" unfolding b_def using h by (intro nat_mono) simp
    have 2: "e \<le> nat (t - base v)" unfolding e_def using h by (intro nat_mono) simp
    have 3: "nat (t - base v) \<le> length xs" using h unfolding vend_def xs_def by linarith
    from rotate_window_mset [OF 1 ord(1) ord(2) 2 3]
    show ?thesis by (simp add: slice_def v'_def xs_def [symmetric])
  qed
  show ?thesis using eq len fields win by blast
qed

lemma deactivate_ok:
  assumes wf: "range_in v r" and pre: "first r \<le> f" "f \<le> l" "l \<le> second r"
  shows "\<exists>v'. deactivate dbg v r f l = Inr (v', r\<lparr>second := second r - (l - f)\<rparr>) \<and>
           base v' = base v \<and> length (elems v') = length (elems v) \<and>
           mset (window v' r) = mset (window v r)"
proof -
  have a: "vbegin v \<le> first r" "first r \<le> l" "l \<le> second r" "second r \<le> vend v"
    using wf pre by (simp_all add: range_in_def)
  from std_rotate_ok [OF a] obtain v' where
    rot: "std_rotate v (first r) l (second r) = Inr v'" and
    same: "base v' = base v" "length (elems v') = length (elems v)" and
    win: "\<And>a t. vbegin v \<le> a \<and> a \<le> first r \<and> second r \<le> t \<and> t \<le> vend v \<Longrightarrow>
              mset (slice v' a t) = mset (slice v a t)"
    by blast
  have "mset (window v' r) = mset (window v r)"
    unfolding window_def using wf by (intro win) (simp add: range_in_def)
  moreover have "deactivate dbg v r f l = Inr (v', r\<lparr>second := second r - (l - f)\<rparr>)"
    using pre rot by (simp add: deactivate_def Let_def size_r_def inactive_def capacity_def)
  ultimately show ?thesis using same by blast
qed

lemma activate_ok:
  assumes wf: "range_in v r" and pre: "second r \<le> f" "f \<le> l" "l \<le> trueend r"
  shows "\<exists>v'. activate dbg v r f l = Inr (v', r\<lparr>second := second r + (l - f)\<rparr>) \<and>
           base v' = base v \<and> length (elems v') = length (elems v) \<and>
           mset (window v' r) = mset (window v r)"
proof -
  have a: "vbegin v \<le> second r" "second r \<le> f" "f \<le> trueend r" "trueend r \<le> vend v"
    using wf pre by (simp_all add: range_in_def)
  from std_rotate_ok [OF a] obtain v' where
    rot: "std_rotate v (second r) f (trueend r) = Inr v'" and
    same: "base v' = base v" "length (elems v') = length (elems v)" and
    win: "\<And>a t. vbegin v \<le> a \<and> a \<le> second r \<and> trueend r \<le> t \<and> t \<le> vend v \<Longrightarrow>
              mset (slice v' a t) = mset (slice v a t)"
    by blast
  have "mset (window v' r) = mset (window v r)"
    unfolding window_def using wf by (intro win) (simp add: range_in_def)
  moreover have "activate dbg v r f l = Inr (v', r\<lparr>second := second r + (l - f)\<rparr>)"
    using rot by (simp add: activate_def Let_def size_r_def inactive_def capacity_def)
  ultimately show ?thesis using same by blast
qed

lemma apply_call_ok:
  assumes "range_in v r" and "span_ok r c"
  shows "\<exists>v' r'. apply_call dbg v r c = Inr (v', r') \<and> range_in v' r' \<and>
           first r' = first r \<and> trueend r' = trueend r \<and>
           mset (window v' r') = mset (window v r)"
proof (cases c)
  case (Deactivate f l)
  with assms have pre: "first r \<le> f" "f \<le> l" "l \<le> second r" by simp_all
  from deactivate_ok [OF assms(1) pre, of dbg] obtain v' where
    d: "deactivate dbg v r f l = Inr (v', r\<lparr>second := second r - (l - f)\<rparr>)"
      "base v' = base v" "length (elems v') = length (elems v)"
      "mset (window v' r) = mset (window v r)"
    by blast
  have "range_in v' (r\<lparr>second := second r - (l - f)\<rparr>)"
    using assms(1) pre d(2,3) by (simp add: range_in_def vbegin_def vend_def)
  moreover have "window v' (r\<lparr>second := second r - (l - f)\<rparr>) = window v' r"
    by (simp add: window_def)
  ultimately show ?thesis using d Deactivate by simp
next
  case (Activate f l)
  with assms have pre: "second r \<le> f" "f \<le> l" "l \<le> trueend r" by simp_all
  from activate_ok [OF assms(1) pre, of dbg] obtain v' where
    d: "activate dbg v r f l = Inr (v', r\<lparr>second := second r + (l - f)\<rparr>)"
      "base v' = base v" "length (elems v') = length (elems v)"
      "mset (window v' r) = mset (window v r)"
    by blast
  have "range_in v' (r\<lparr>second := second r + (l - f)\<rparr>)"
    using assms(1) pre d(2,3) by (simp add: range_in_def vbegin_def vend_def)
  moreover have "window v' (r\<lparr>second := second r + (l - f)\<rparr>) = window v' r"
    by (simp add: window_def)
  ultimately show ?thesis using d Activate by simp
qed

lemma run_calls_ok:
  assumes "range_in v r" and "spans_ok dbg v r cs"
  shows "\<exists>v' r'. run_calls dbg v r cs = Inr (v', r') \<and> range_in v' r' \<and>
           first r' = first r \<and> trueend r' = trueend r \<and>
           mset (window v' r') = mset (window v r)"
  using assms
proof (induction cs arbitrary: v r)
  case Nil
  then show ?case by simp
next
  case (Cons c cs)
  from Cons.prems have sp: "span_ok r c" by simp
  from apply_call_ok [OF Cons.prems(1) sp, of dbg] obtain v1 r1 where
    s: "apply_call dbg v r c = Inr (v1, r1)" "range_in v1 r1"
       "first r1 = first r" "trueend r1 = trueend r" "mset (window v1 r1) = mset (window v r)"
    by blast
  from Cons.prems(2) s(1) have "spans_ok dbg v1 r1 cs" by simp
  from Cons.IH [OF s(2) this] obtain v' r' where
    t: "run_calls dbg v1 r1 cs = Inr (v', r')" "range_in v' r'"
       "first r' = first r1" "trueend r' = trueend r1" "mset (window v' r') = mset (window v1 r1)"
    by blast
  show ?case using s t by simp
qed

text \<open>
  Claim C2: for every elastic range that lies inside its vector and every sequence of
  \<^verbatim>\<open>deactivate\<close>/\<^verbatim>\<open>activate\<close> calls each of which satisfies its span precondition in the
  state it is made in, with or without assertions, all calls succeed, and afterwards
  \<^verbatim>\<open>size() + inactive().size() == capacity()\<close> with both sizes non-negative, \<^verbatim>\<open>begin\<close>,
  \<^verbatim>\<open>trueend\<close> and the capacity are what they were, and the multiset of the elements stored
  in \<open>[begin, trueend)\<close> equals the initial multiset.
\<close>

theorem elastic_range_calls_invariant:
  assumes "range_in v r" and "spans_ok dbg v r cs"
  shows "\<exists>v' r'. run_calls dbg v r cs = Inr (v', r') \<and>
           size_r r' + size_r (inactive r') = capacity r' \<and>
           0 \<le> size_r r' \<and> 0 \<le> size_r (inactive r') \<and> capacity r' = capacity r \<and>
           first r' = first r \<and> trueend r' = trueend r \<and>
           mset (window v' r') = mset (window v r)"
proof -
  from run_calls_ok [OF assms] obtain v' r' where
    t: "run_calls dbg v r cs = Inr (v', r')" "range_in v' r'"
       "first r' = first r" "trueend r' = trueend r" "mset (window v' r') = mset (window v r)"
    by blast
  have "size_r r' + size_r (inactive r') = capacity r'"
    by (simp add: size_r_def inactive_def capacity_def)
  moreover have "0 \<le> size_r r'" "0 \<le> size_r (inactive r')"
    using t(2) by (simp_all add: range_in_def size_r_def inactive_def)
  moreover have "capacity r' = capacity r"
    using t(3,4) by (simp add: capacity_def)
  ultimately show ?thesis using t by blast
qed

theorem elastic_range_calls_invariant_witness:
  "range_in \<lparr>base = 0, cap = 6, elems = [10, 20, 30, 40, 50, 60 :: int]\<rparr> (ElasticRange 0 6) \<and>
   spans_ok True \<lparr>base = 0, cap = 6, elems = [10, 20, 30, 40, 50, 60 :: int]\<rparr> (ElasticRange 0 6)
     [Deactivate 1 3, Activate 5 6, Deactivate 0 2] \<and>
   (\<exists>v' r'. run_calls True \<lparr>base = 0, cap = 6, elems = [10, 20, 30, 40, 50, 60 :: int]\<rparr>
               (ElasticRange 0 6) [Deactivate 1 3, Activate 5 6, Deactivate 0 2] = Inr (v', r') \<and>
           size_r r' + size_r (inactive r') = capacity r' \<and>
           0 \<le> size_r r' \<and> 0 \<le> size_r (inactive r') \<and>
           capacity r' = capacity (ElasticRange 0 6) \<and>
           first r' = first (ElasticRange 0 6) \<and> trueend r' = trueend (ElasticRange 0 6) \<and>
           mset (window v' r') =
             mset (window \<lparr>base = 0, cap = 6, elems = [10, 20, 30, 40, 50, 60 :: int]\<rparr>
                     (ElasticRange 0 6)))"
proof -
  have h1: "range_in \<lparr>base = 0, cap = 6, elems = [10, 20, 30, 40, 50, 60 :: int]\<rparr>
              (ElasticRange 0 6)"
    by (simp add: range_in_def ElasticRange_def vbegin_def vend_def)
  have h2: "spans_ok True \<lparr>base = 0, cap = 6, elems = [10, 20, 30, 40, 50, 60 :: int]\<rparr>
              (ElasticRange 0 6) [Deactivate 1 3, Activate 5 6, Deactivate 0 2]"
    by (simp add: deactivate_def activate_def ElasticRange_def std_rotate_def vbegin_def vend_def
        size_r_def inactive_def capacity_def)
  from elastic_range_calls_invariant [OF h1 h2] h1 h2 show ?thesis by blast
qed

section \<open>Elastic range: the documented example\<close>

lemmas range_defs = std_rotate_def vbegin_def vend_def size_r_def inactive_def capacity_def
  deref_def active_def slice_def

text \<open>
  Claim C3, as stated, asks that after \<^verbatim>\<open>deactivate\<close> of offsets \<open>[1,3)\<close> of
  \<open>{10,20,30,40,50,60}\<close> the active window is the sequence \<open>10,40,50,60\<close>. The rotation
  \<^verbatim>\<open>std::rotate(begin(), last, end())\<close> brings \<open>40\<close> to the front: the active window is
  \<open>40,50,60,10\<close>.
\<close>

theorem deactivate_active_order_counterexample:
  "deactivate True \<lparr>base = 0, cap = 6, elems = [10, 20, 30, 40, 50, 60 :: int]\<rparr>
      (ElasticRange 0 6) 1 3
     = Inr (\<lparr>base = 0, cap = 6, elems = [40, 50, 60, 10, 20, 30]\<rparr>,
            \<lparr>first = 0, second = 4, trueend = 6\<rparr>)
   \<and> active \<lparr>base = 0, cap = 6, elems = [40, 50, 60, 10, 20, 30 :: int]\<rparr>
        \<lparr>first = 0, second = 4, trueend = 6\<rparr> \<noteq> [10, 40, 50, 60]"
  by (simp add: deactivate_def ElasticRange_def range_defs)

text \<open>
  Claim C3, amended: on the elastic range over \<open>{10,20,30,40,50,60}\<close>, wherever the vector is
  stored and with or without assertions, \<^verbatim>\<open>deactivate\<close> of the span at offsets \<open>[1,3)\<close>
  succeeds and leaves the active window equal to the sequence \<open>40,50,60,10\<close>, which has the
  elements of \<open>{10,40,50,60}\<close>, with \<open>20\<close> readable at \<^verbatim>\<open>end()\<close> and \<open>30\<close> at
  \<^verbatim>\<open>end()+1\<close>; a subsequent \<^verbatim>\<open>activate\<close> of the two elements starting at \<^verbatim>\<open>end()\<close> succeeds
  and yields active size \<open>6\<close> with \<open>20\<close> at \<^verbatim>\<open>end()-2\<close> and \<open>30\<close> at \<^verbatim>\<open>end()-1\<close>.
\<close>

theorem deactivate_then_activate_example:
  "deactivate dbg \<lparr>base = b, cap = 6, elems = [10, 20, 30, 40, 50, 60 :: int]\<rparr>
      (ElasticRange b (b + 6)) (b + 1) (b + 3)
     = Inr (\<lparr>base = b, cap = 6, elems = [40, 50, 60, 10, 20, 30]\<rparr>,
            \<lparr>first = b, second = b + 4, trueend = b + 6\<rparr>)
   \<and> active \<lparr>base = b, cap = 6, elems = [40, 50, 60, 10, 20, 30 :: int]\<rparr>
        \<lparr>first = b, second = b + 4, trueend = b + 6\<rparr> = [40, 50, 60, 10]
   \<and> mset [40, 50, 60, 10 :: int] = mset [10, 40, 50, 60]
   \<and> deref \<lparr>base = b, cap = 6, elems = [40, 50, 60, 10, 20, 30 :: int]\<rparr> (b + 4) = Inr 20
   \<and> deref \<lparr>base = b, cap = 6, elems = [40, 50, 60, 10, 20, 30 :: int]\<rparr> (b + 4 + 1) = Inr 30
   \<and> activate dbg \<lparr>base = b, cap = 6, elems = [40, 50, 60, 10, 20, 30 :: int]\<rparr>
        \<lparr>first = b, second = b + 4, trueend = b + 6\<rparr> (b + 4) (b + 4 + 2)
     = Inr (\<lparr>base = b, cap = 6, elems = [40, 50, 60, 10, 20, 30]\<rparr>,
            \<lparr>first = b, second = b + 6, trueend = b + 6\<rparr>)
   \<and> size_r \<lparr>first = b, second = b + 6, trueend = b + 6\<rparr> = 6
   \<and> deref \<lparr>base = b, cap = 6, elems = [40, 50, 60, 10, 20, 30 :: int]\<rparr> (b + 6 - 2) = Inr 20
   \<and> deref \<lparr>base = b, cap = 6, elems = [40, 50, 60, 10, 20, 30 :: int]\<rparr> (b + 6 - 1) = Inr 30"
  by (simp add: deactivate_def activate_def ElasticRange_def range_defs)

section \<open>Change::empty\<close>

lemma change_empty_iff: "change_empty c \<longleftrightarrow> touched_groups c = [] \<and> dV c \<noteq> 0"
  by (simp add: change_empty_def)

text \<open>
  With assertions enabled \<^verbatim>\<open>Change::clear\<close> always fails its own \<^verbatim>\<open>assert(empty())\<close>: the
  source expects a cleared change to be empty.
\<close>

lemma change_clear_debug: "change_clear True c = Inl AssertionFailed"
  by (simp add: change_clear_def change_empty_def)

text \<open>
  Claim C4 says that \<^verbatim>\<open>empty()\<close> returns true exactly when no group is recorded and the
  volume change is \<open>0\<close>. On the change with no group and \<open>dV = 0\<close> the code returns false
  (by \<open>change_empty_iff\<close> it returns true exactly when no group is recorded and
  \<open>dV \<noteq> 0\<close>).
\<close>

theorem Change_empty_of_cleared_change:
  "change_empty \<lparr>dV = 0, touched_groups = []\<rparr> = False"
  by (simp add: change_empty_def)

section \<open>Minimum-image distance\<close>

lemma single_correction_bound:
  fixes r L :: real
  assumes m: "mono rnd" and up: "rnd (L * 0.5) = L / 2" and lo: "rnd (- (L / 2)) = - (L / 2)"
    and r: "\<bar>r\<bar> \<le> 3 * L / 2"
  shows "\<bar>if r > rnd (L * 0.5) then rnd (r - L)
          else if r < - rnd (L * 0.5) then rnd (r + L) else r\<bar> \<le> L / 2"
proof -
  have hi: "rnd x \<le> L / 2" if "x \<le> L / 2" for x
  proof -
    from that have "x \<le> L * 0.5" by simp
    with m have "rnd x \<le> rnd (L * 0.5)" by (rule monoD)
    then show ?thesis unfolding up .
  qed
  have low: "- (L / 2) \<le> rnd x" if "- (L / 2) \<le> x" for x
  proof -
    from m that have "rnd (- (L / 2)) \<le> rnd x" by (rule monoD)
    then show ?thesis unfolding lo .
  qed
  have bound: "\<bar>rnd x\<bar> \<le> L / 2" if "- (L / 2) \<le> x" "x \<le> L / 2" for x
    using hi [OF that(2)] low [OF that(1)] by linarith
  show ?thesis
  proof (cases "r > L / 2")
    case True
    then have "- (L / 2) \<le> r - L" "r - L \<le> L / 2" using r by linarith+
    then have "\<bar>rnd (r - L)\<bar> \<le> L / 2" by (rule bound)
    then show ?thesis unfolding up using True by simp
  next
    case False
    show ?thesis
    proof (cases "r < - (L / 2)")
      case True
      then have "- (L / 2) \<le> r + L" "r + L \<le> L / 2" using r by linarith+
      then have "\<bar>rnd (r + L)\<bar> \<le> L / 2" by (rule bound)
      then show ?thesis unfolding up using True False by simp
    next
      case False2: False
      then have "\<bar>r\<bar> \<le> L / 2" using False by linarith
      then show ?thesis unfolding up using False False2 by simp
    qed
  qed
qed

lemma vdist_px:
  "px (vdist rnd X Y Z (setLength rnd l g) a b) =
     (if X then (if rnd (px a - px b) > rnd (px l * 0.5) then rnd (rnd (px a - px b) - px l)
                 else if rnd (px a - px b) < - rnd (px l * 0.5) then rnd (rnd (px a - px b) + px l)
                 else rnd (px a - px b))
      else rnd (px a - px b))"
  by (simp add: vdist_def setLength_def point_minus_def point_scale_def Let_def)

lemma vdist_py:
  "py (vdist rnd X Y Z (setLength rnd l g) a b) =
     (if Y then (if rnd (py a - py b) > rnd (py l * 0.5) then rnd (rnd (py a - py b) - py l)
                 else if rnd (py a - py b) < - rnd (py l * 0.5) then rnd (rnd (py a - py b) + py l)
                 else rnd (py a - py b))
      else rnd (py a - py b))"
  by (simp add: vdist_def setLength_def point_minus_def point_scale_def Let_def)

lemma vdist_pz:
  "pz (vdist rnd X Y Z (setLength rnd l g) a b) =
     (if Z then (if rnd (pz a - pz b) > rnd (pz l * 0.5) then rnd (rnd (pz a - pz b) - pz l)
                 else if rnd (pz a - pz b) < - rnd (pz l * 0.5) then rnd (rnd (pz a - pz b) + pz l)
                 else rnd (pz a - pz b))
      else rnd (pz a - pz b))"
  by (simp add: vdist_def setLength_def point_minus_def point_scale_def Let_def)

text \<open>
  Claim C5, as stated, bounds every component of \<^verbatim>\<open>vdist(a,b)\<close> on a periodic axis by half
  the side length, for every pair of points. \<^verbatim>\<open>vdist\<close> corrects once: in a box of side \<open>2\<close>
  the points \<open>(4,0,0)\<close> and \<open>(0,0,0)\<close> give the x component \<open>2\<close>, above the half side \<open>1\<close>.
  Every number computed on the way (\<open>4 - 0\<close>, \<open>2 * 0.5\<close>, \<open>4 - 2\<close>) is a double, so the
  rounding leaves each as it is.
\<close>

theorem vdist_far_points_counterexample:
  "\<not> \<bar>px (vdist (\<lambda>x. x) True True True
            (setLength (\<lambda>x. x) (Point 2 2 2)
               \<lparr>len = Point 0 0 0, len_half = Point 0 0 0, len_inv = Point 0 0 0\<rparr>)
            (Point 4 0 0) (Point 0 0 0))\<bar>
       \<le> px (len (setLength (\<lambda>x. x) (Point 2 2 2)
               \<lparr>len = Point 0 0 0, len_half = Point 0 0 0, len_inv = Point 0 0 0\<rparr>)) / 2"
  by (simp add: vdist_def setLength_def point_minus_def point_scale_def)

text \<open>
  Claim C5, amended: for every periodic box with side lengths \<open>L\<close> set by \<^verbatim>\<open>setLength\<close> and
  every pair of points \<open>a\<close> and \<open>b\<close>, each component \<open>i\<close> of \<^verbatim>\<open>vdist(a,b)\<close> on a
  periodicity-enabled axis on which the difference \<open>a_i - b_i\<close>, as the code computes it, is
  at most one and a half side lengths in magnitude, satisfies \<open>|component_i| \<le> L_i / 2\<close>.
  This holds for every rounding that is monotone, where \<open>L_i / 2\<close> and \<open>- L_i / 2\<close> are
  doubles and \<^verbatim>\<open>l*0.5\<close> is computed exactly (halving a double is exact unless it underflows).
\<close>

theorem vdist_within_half_box:
  assumes "mono rnd"
  shows
  "(X \<and> rnd (px l * 0.5) = px l / 2 \<and> rnd (- (px l / 2)) = - (px l / 2) \<and>
      \<bar>rnd (px a - px b)\<bar> \<le> 3 * px l / 2
      \<longrightarrow> \<bar>px (vdist rnd X Y Z (setLength rnd l g) a b)\<bar> \<le> px l / 2) \<and>
   (Y \<and> rnd (py l * 0.5) = py l / 2 \<and> rnd (- (py l / 2)) = - (py l / 2) \<and>
      \<bar>rnd (py a - py b)\<bar> \<le> 3 * py l / 2
      \<longrightarrow> \<bar>py (vdist rnd X Y Z (setLength rnd l g) a b)\<bar> \<le> py l / 2) \<and>
   (Z \<and> rnd (pz l * 0.5) = pz l / 2 \<and> rnd (- (pz l / 2)) = - (pz l / 2) \<and>
      \<bar>rnd (pz a - pz b)\<bar> \<le> 3 * pz l / 2
      \<longrightarrow> \<bar>pz (vdist rnd X Y Z (setLength rnd l g) a b)\<bar> \<le> pz l / 2)"
proof (intro conjI impI)
  assume h: "X \<and> rnd (px l * 0.5) = px l / 2 \<and> rnd (- (px l / 2)) = - (px l / 2) \<and>
      \<bar>rnd (px a - px b)\<bar> \<le> 3 * px l / 2"
  then have "X" by simp
  then show "\<bar>px (vdist rnd X Y Z (setLength rnd l g) a b)\<bar> \<le> px l / 2"
    using single_correction_bound [OF assms, of "px l" "rnd (px a - px b)"] h
    by (simp only: vdist_px if_True)
next
  assume h: "Y \<and> rnd (py l * 0.5) = py l / 2 \<and> rnd (- (py l / 2)) = - (py l / 2) \<and>
      \<bar>rnd (py a - py b)\<bar> \<le> 3 * py l / 2"
  then have "Y" by simp
  then show "\<bar>py (vdist rnd X Y Z (setLength rnd l g) a b)\<bar> \<le> py l / 2"
    using single_correction_bound [OF assms, of "py l" "rnd (py a - py b)"] h
    by (simp only: vdist_py if_True)
next
  assume h: "Z \<and> rnd (pz l * 0.5) = pz l / 2 \<and> rnd (- (pz l / 2)) = - (pz l / 2) \<and>
      \<bar>rnd (pz a - pz b)\<bar> \<le> 3 * pz l / 2"
  then have "Z" by simp
  then show "\<bar>pz (vdist rnd X Y Z (setLength rnd l g) a b)\<bar> \<le> pz l / 2"
    using single_correction_bound [OF assms, of "pz l" "rnd (pz a - pz b)"] h
    by (simp only: vdist_pz if_True)
qed


text \<open>A rounding to multiples of a quarter, to the nearest, is monotone.\<close>

lemma grid_rounding_mono: "mono (\<lambda>x :: real. real_of_int \<lfloor>x * 4 + 1 / 2\<rfloor> / 4)"
proof (rule monoI)
  fix x y :: real
  assume "x \<le> y"
  then have "\<lfloor>x * 4 + 1 / 2\<rfloor> \<le> \<lfloor>y * 4 + 1 / 2\<rfloor>" by (intro floor_mono) simp
  then show "real_of_int \<lfloor>x * 4 + 1 / 2\<rfloor> / 4 \<le> real_of_int \<lfloor>y * 4 + 1 / 2\<rfloor> / 4"
    by simp
qed

theorem vdist_within_half_box_witness:
  "mono (\<lambda>x :: real. real_of_int \<lfloor>x * 4 + 1 / 2\<rfloor> / 4) \<and>
   (\<lambda>x :: real. real_of_int \<lfloor>x * 4 + 1 / 2\<rfloor> / 4) (px (Point 2 3 4) * 0.5) = px (Point 2 3 4) / 2 \<and>
   (\<lambda>x :: real. real_of_int \<lfloor>x * 4 + 1 / 2\<rfloor> / 4) (- (px (Point 2 3 4) / 2)) = - (px (Point 2 3 4) / 2) \<and>
   \<bar>(\<lambda>x :: real. real_of_int \<lfloor>x * 4 + 1 / 2\<rfloor> / 4) (px (Point 1 (- 1) 7) - px (Point (- 1.5) 1.25 0))\<bar> \<le> 3 * px (Point 2 3 4) / 2 \<and>
   \<bar>px (vdist (\<lambda>x :: real. real_of_int \<lfloor>x * 4 + 1 / 2\<rfloor> / 4) True True False (setLength (\<lambda>x :: real. real_of_int \<lfloor>x * 4 + 1 / 2\<rfloor> / 4) (Point 2 3 4) \<lparr>len = Point 0 0 0, len_half = Point 0 0 0, len_inv = Point 0 0 0\<rparr>)
          (Point 1 (- 1) 7) (Point (- 1.5) 1.25 0))\<bar> \<le> px (Point 2 3 4) / 2 \<and>
   (\<lambda>x :: real. real_of_int \<lfloor>x * 4 + 1 / 2\<rfloor> / 4) (py (Point 2 3 4) * 0.5) = py (Point 2 3 4) / 2 \<and>
   (\<lambda>x :: real. real_of_int \<lfloor>x * 4 + 1 / 2\<rfloor> / 4) (- (py (Point 2 3 4) / 2)) = - (py (Point 2 3 4) / 2) \<and>
   \<bar>(\<lambda>x :: real. real_of_int \<lfloor>x * 4 + 1 / 2\<rfloor> / 4) (py (Point 1 (- 1) 7) - py (Point (- 1.5) 1.25 0))\<bar> \<le> 3 * py (Point 2 3 4) / 2 \<and>
   \<bar>py (vdist (\<lambda>x :: real. real_of_int \<lfloor>x * 4 + 1 / 2\<rfloor> / 4) True True False (setLength (\<lambda>x :: real. real_of_int \<lfloor>x * 4 + 1 / 2\<rfloor> / 4) (Point 2 3 4) \<lparr>len = Point 0 0 0, len_half = Point 0 0 0, len_inv = Point 0 0 0\<rparr>)
          (Point 1 (- 1) 7) (Point (- 1.5) 1.25 0))\<bar> \<le> py (Point 2 3 4) / 2"
proof -
  have x1: "(\<lambda>x :: real. real_of_int \<lfloor>x * 4 + 1 / 2\<rfloor> / 4) (px (Point 2 3 4) * 0.5) = px (Point 2 3 4) / 2" by simp
  have x2: "(\<lambda>x :: real. real_of_int \<lfloor>x * 4 + 1 / 2\<rfloor> / 4) (- (px (Point 2 3 4) / 2)) = - (px (Point 2 3 4) / 2)" by simp
  have x3: "\<bar>(\<lambda>x :: real. real_of_int \<lfloor>x * 4 + 1 / 2\<rfloor> / 4) (px (Point 1 (- 1) 7) - px (Point (- 1.5) 1.25 0))\<bar> \<le> 3 * px (Point 2 3 4) / 2"
    by simp
  have y1: "(\<lambda>x :: real. real_of_int \<lfloor>x * 4 + 1 / 2\<rfloor> / 4) (py (Point 2 3 4) * 0.5) = py (Point 2 3 4) / 2" by simp
  have y2: "(\<lambda>x :: real. real_of_int \<lfloor>x * 4 + 1 / 2\<rfloor> / 4) (- (py (Point 2 3 4) / 2)) = - (py (Point 2 3 4) / 2)" by simp
  have y3: "\<bar>(\<lambda>x :: real. real_of_int \<lfloor>x * 4 + 1 / 2\<rfloor> / 4) (py (Point 1 (- 1) 7) - py (Point (- 1.5) 1.25 0))\<bar> \<le> 3 * py (Point 2 3 4) / 2"
    by simp
  note t = vdist_within_half_box [OF grid_rounding_mono,
      where X = True and Y = True and Z = False and l = "Point 2 3 4" and
        a = "Point 1 (- 1) 7" and b = "Point (- 1.5) 1.25 0" and
        g = "\<lparr>len = Point 0 0 0, len_half = Point 0 0 0, len_inv = Point 0 0 0\<rparr>"]
  from t x1 x2 x3 have cx: "\<bar>px (vdist (\<lambda>x :: real. real_of_int \<lfloor>x * 4 + 1 / 2\<rfloor> / 4) True True False (setLength (\<lambda>x :: real. real_of_int \<lfloor>x * 4 + 1 / 2\<rfloor> / 4) (Point 2 3 4) \<lparr>len = Point 0 0 0, len_half = Point 0 0 0, len_inv = Point 0 0 0\<rparr>)
          (Point 1 (- 1) 7) (Point (- 1.5) 1.25 0))\<bar> \<le> px (Point 2 3 4) / 2"
    by blast
  from t y1 y2 y3 have cy: "\<bar>py (vdist (\<lambda>x :: real. real_of_int \<lfloor>x * 4 + 1 / 2\<rfloor> / 4) True True False (setLength (\<lambda>x :: real. real_of_int \<lfloor>x * 4 + 1 / 2\<rfloor> / 4) (Point 2 3 4) \<lparr>len = Point 0 0 0, len_half = Point 0 0 0, len_inv = Point 0 0 0\<rparr>)
          (Point 1 (- 1) 7) (Point (- 1.5) 1.25 0))\<bar> \<le> py (Point 2 3 4) / 2"
    by blast
  show ?thesis
    by (intro conjI grid_rounding_mono x1 x2 x3 cx y1 y2 y3 cy)
qed

section \<open>Group assignment\<close>

lemma group_assign_capacity_mismatch:
  "capacity g \<noteq> capacity og \<Longrightarrow> group_assign dbg g og = Inl (RuntimeError ''capacity mismatch'')"
  by (simp add: group_assign_def)

lemma group_assign_release:
  "capacity g = capacity og \<Longrightarrow>
   group_assign False g og =
     Inr (g\<lparr>second := second g + size_r og, group_id := group_id og, atomic := atomic og, cm := cm og\<rparr>)"
  by (simp add: group_assign_def resize_def)

lemma group_assign_debug:
  "capacity g = capacity og \<Longrightarrow> size_r g \<noteq> 0 \<Longrightarrow> group_assign True g og = Inl AssertionFailed"
  by (simp add: group_assign_def resize_def size_r_def)

text \<open>
  Claim C6 says that an assignment between groups of equal capacity copies the active size.
  \<^verbatim>\<open>resize(n)\<close> adds \<open>n\<close> to \<^verbatim>\<open>end()\<close> where its own assertion \<^verbatim>\<open>size()==n\<close> expects the size
  to become \<open>n\<close>. Assigning a group with \<open>1\<close> active particle of \<open>3\<close> to a group with \<open>2\<close>
  active of \<open>3\<close> leaves the target with size \<open>3\<close> without assertions, and aborts with them.
\<close>

theorem Group_assign_adds_to_size:
  "group_assign False
      \<lparr>first = 0, second = 2, trueend = 3, group_id = - 1, atomic = False, cm = Point 0 0 0\<rparr>
      \<lparr>first = 0, second = 1, trueend = 3, group_id = 7, atomic = True, cm = Point 1 2 3\<rparr>
     = Inr \<lparr>first = 0, second = 3, trueend = 3, group_id = 7, atomic = True, cm = Point 1 2 3\<rparr>
   \<and> size_r \<lparr>first = 0, second = 3, trueend = 3, group_id = 7, atomic = True, cm = Point 1 2 3\<rparr>
       \<noteq> size_r \<lparr>first = 0, second = 1, trueend = 3, group_id = 7, atomic = True, cm = Point 1 2 3\<rparr>
   \<and> group_assign True
      \<lparr>first = 0, second = 2, trueend = 3, group_id = - 1, atomic = False, cm = Point 0 0 0\<rparr>
      \<lparr>first = 0, second = 1, trueend = 3, group_id = 7, atomic = True, cm = Point 1 2 3\<rparr>
     = Inl AssertionFailed"
  by (simp add: group_assign_def capacity_def resize_def size_r_def)

section \<open>Space::sync\<close>

lemma assign_ok:
  assumes "vbegin v \<le> it0" "it0 < vend v"
  shows "\<exists>v'. assign v it0 a = Inr v' \<and> base v' = base v \<and> cap v' = cap v \<and>
           length (elems v') = length (elems v) \<and>
           (\<forall>it. deref v' it = (if it = it0 then Inr a else deref v it))"
proof -
  define v' where "v' = v\<lparr>elems := (elems v)[nat (it0 - base v) := a]\<rparr>"
  have eq: "assign v it0 a = Inr v'" using assms by (simp add: assign_def v'_def)
  have f: "base v' = base v" "cap v' = cap v" "length (elems v') = length (elems v)"
    by (simp_all add: v'_def)
  have n0: "nat (it0 - base v) < length (elems v)"
    using assms unfolding vbegin_def vend_def by linarith
  have d: "deref v' it = (if it = it0 then Inr a else deref v it)" for it
  proof (cases "vbegin v \<le> it \<and> it < vend v")
    case True
    then have inr: "nat (it - base v) < length (elems v)"
      unfolding vbegin_def vend_def by linarith
    have dv: "deref v it = Inr (elems v ! nat (it - base v))"
      using True by (simp add: deref_def)
    have dv': "deref v' it = Inr ((elems v)[nat (it0 - base v) := a] ! nat (it - base v))"
      using True by (simp add: deref_def v'_def vbegin_def vend_def)
    show ?thesis
    proof (cases "it = it0")
      case True
      then show ?thesis using dv' n0 by simp
    next
      case False
      then have "nat (it0 - base v) \<noteq> nat (it - base v)"
        using True assms unfolding vbegin_def vend_def by linarith
      then show ?thesis using dv dv' False by simp
    qed
  next
    case False
    then have "it \<noteq> it0" using assms by auto
    moreover have "deref v' it = Inl UndefinedBehaviour" "deref v it = Inl UndefinedBehaviour"
      using False by (auto simp: deref_def v'_def vbegin_def vend_def)
    ultimately show ?thesis by simp
  qed
  show ?thesis using eq f d by blast
qed

lemma copy_atoms_ok:
  assumes "\<forall>i \<in> set is. vbegin pv \<le> gob + i \<and> gob + i < vend pv \<and>
                          vbegin po \<le> gnb + i \<and> gnb + i < vend po"
  shows "\<exists>pv'. copy_atoms pv po gob gnb is = Inr pv' \<and> base pv' = base pv \<and> cap pv' = cap pv \<and>
           length (elems pv') = length (elems pv) \<and>
           (\<forall>it. deref pv' it =
              (if it - gob \<in> set is then deref po (gnb + (it - gob)) else deref pv it))"
  using assms
proof (induction "is" arbitrary: pv)
  case Nil
  then show ?case by simp
next
  case (Cons i "is")
  from Cons.prems have ri: "vbegin pv \<le> gob + i" "gob + i < vend pv"
    and ro: "vbegin po \<le> gnb + i \<and> gnb + i < vend po" by simp_all
  from ro have rd: "deref po (gnb + i) = Inr (elems po ! nat (gnb + i - base po))"
    by (simp add: deref_def)
  from assign_ok [OF ri, of "elems po ! nat (gnb + i - base po)"] obtain pv1 where
    a: "assign pv (gob + i) (elems po ! nat (gnb + i - base po)) = Inr pv1"
       "base pv1 = base pv" "cap pv1 = cap pv" "length (elems pv1) = length (elems pv)"
    and d1: "\<And>it. deref pv1 it =
        (if it = gob + i then Inr (elems po ! nat (gnb + i - base po)) else deref pv it)"
    by blast
  have "\<forall>i \<in> set is. vbegin pv1 \<le> gob + i \<and> gob + i < vend pv1 \<and>
                          vbegin po \<le> gnb + i \<and> gnb + i < vend po"
    using Cons.prems a(2,4) by (simp add: vbegin_def vend_def)
  from Cons.IH [OF this] obtain pv' where
    c: "copy_atoms pv1 po gob gnb is = Inr pv'" "base pv' = base pv1" "cap pv' = cap pv1"
       "length (elems pv') = length (elems pv1)"
    and d2: "\<And>it. deref pv' it =
        (if it - gob \<in> set is then deref po (gnb + (it - gob)) else deref pv1 it)"
    by blast
  have eq: "copy_atoms pv po gob gnb (i # is) = Inr pv'"
    using rd a(1) c(1) by simp
  have d: "deref pv' it =
        (if it - gob \<in> set (i # is) then deref po (gnb + (it - gob)) else deref pv it)" for it
  proof (cases "it - gob \<in> set is")
    case True
    then show ?thesis using d2 [of it] by simp
  next
    case False
    show ?thesis
    proof (cases "it = gob + i")
      case True
      then have "it - gob = i" by simp
      then show ?thesis using False d2 [of it] d1 [of it] True rd by simp
    next
      case False2: False
      then have "it - gob \<noteq> i" by auto
      then show ?thesis using False d2 [of it] d1 [of it] False2 by simp
    qed
  qed
  show ?case using eq a c d by (intro exI [of _ pv']) simp
qed


lemma same_topology_group:
  assumes "same_topology s os" and "h < length (groups s)"
  shows "length (groups os) = length (groups s)"
    and "first (groups os ! h) - vbegin (p os) = first (groups s ! h) - vbegin (p s)"
    and "trueend (groups os ! h) - vbegin (p os) = trueend (groups s ! h) - vbegin (p s)"
    and "length (elems (p os)) = length (elems (p s))"
proof -
  from assms(1) have t: "topology s = topology os" and l: "length (elems (p s)) = length (elems (p os))"
    by (simp_all add: same_topology_def)
  from t have "length (topology s) = length (topology os)" by simp
  then show len: "length (groups os) = length (groups s)" by (simp add: topology_def)
  from t have "topology s ! h = topology os ! h" by simp
  then have "(first (groups s ! h) - vbegin (p s), trueend (groups s ! h) - vbegin (p s)) =
             (first (groups os ! h) - vbegin (p os), trueend (groups os ! h) - vbegin (p os))"
    using assms(2) len by (simp add: topology_def)
  then show "first (groups os ! h) - vbegin (p os) = first (groups s ! h) - vbegin (p s)"
    and "trueend (groups os ! h) - vbegin (p os) = trueend (groups s ! h) - vbegin (p s)"
    by simp_all
  show "length (elems (p os)) = length (elems (p s))" using l by simp
qed

text \<open>
  Claim C1: for every accepted Space whose group windows are in place and every trial Space
  with the same group topology, for every group \<open>g\<close> that has the offsets \<open>2\<close> and \<open>5\<close>, and
  every Change whose one entry is for group \<open>g\<close>, lists the touched offsets \<open>{2,5}\<close> (in any
  order, with or without repetition) and has \<open>all\<close> false: \<^verbatim>\<open>accepted.sync(trial, change)\<close>
  returns, the particles at offsets \<open>2\<close> and \<open>5\<close> of accepted group \<open>g\<close> are then the trial
  group's particles at those offsets, and the particle at every other offset of every group
  of the accepted Space is what it was before. The groups other than \<open>g\<close> are unchanged
  altogether; group \<open>g\<close> keeps its window.
\<close>

theorem sync_touched_offsets:
  fixes acc trial :: "('g, 'a) space"
  assumes topo: "same_topology acc trial"
    and wf: "windows_in_place acc"
    and g: "g < length (groups acc)"
    and cap5: "5 < capacity (groups acc ! g)"
    and ch: "touched_groups c =
               [\<lparr>index = int g, all = False, atoms = as, activated = ac, deactivated = de\<rparr>]"
    and as: "set as = {2, 5}"
  shows "\<exists>acc' x y. sync acc trial c = Inr acc' \<and>
           particle_at trial g 2 = Inr x \<and> particle_at acc' g 2 = Inr x \<and>
           particle_at trial g 5 = Inr y \<and> particle_at acc' g 5 = Inr y \<and>
           (\<forall>h k. h < length (groups acc) \<and> 0 \<le> k \<and> k < capacity (groups acc ! h) \<and>
                  (h, k) \<noteq> (g, 2) \<and> (h, k) \<noteq> (g, 5) \<longrightarrow>
                  particle_at acc' h k = particle_at acc h k) \<and>
           length (groups acc') = length (groups acc) \<and>
           (\<forall>h. h < length (groups acc) \<and> h \<noteq> g \<longrightarrow> groups acc' ! h = groups acc ! h) \<and>
           first (groups acc' ! g) = first (groups acc ! g) \<and>
           trueend (groups acc' ! g) = trueend (groups acc ! g) \<and>
           geo acc' = geo acc"
proof -
  define go where "go = groups acc ! g"
  define gn where "gn = groups trial ! g"
  define go' where "go' = go\<lparr>second := second go + size_r gn, group_id := group_id gn,
                             atomic := atomic gn, cm := cm gn\<rparr>"
  note tg = same_topology_group [OF topo g]
  have fo: "first gn - vbegin (p trial) = first go - vbegin (p acc)"
    and te: "trueend gn - vbegin (p trial) = trueend go - vbegin (p acc)"
    using tg(2,3) by (simp_all add: go_def gn_def)
  have ato: "at_idx (groups acc) (int g) = Inr go"
    using g by (simp add: at_idx_def go_def)
  have atn: "at_idx (groups trial) (int g) = Inr gn"
    using g tg(1) by (simp add: at_idx_def gn_def)
  have "capacity go = capacity gn"
    using fo te by (simp add: capacity_def)
  then have asg: "group_assign False go gn = Inr go'"
    unfolding go'_def by (rule group_assign_release)
  have fgo': "first go' = first go" "trueend go' = trueend go"
    by (simp_all add: go'_def)
  have win: "vbegin (p acc) \<le> first go" "trueend go \<le> vend (p acc)"
    using wf g by (simp_all add: windows_in_place_def go_def)
  have c5: "first go + 5 < trueend go"
    using cap5 by (simp add: capacity_def go_def)
  have lens: "vend (p trial) - vbegin (p trial) = vend (p acc) - vbegin (p acc)"
    using tg(4) by (simp add: vend_def vbegin_def)
  have rng: "\<forall>i \<in> set as. vbegin (p acc) \<le> first go' + i \<and> first go' + i < vend (p acc) \<and>
                          vbegin (p trial) \<le> first gn + i \<and> first gn + i < vend (p trial)"
    unfolding as fgo' using win c5 fo lens by auto
  from copy_atoms_ok [OF rng] obtain pv where
    cp: "copy_atoms (p acc) (p trial) (first go') (first gn) as = Inr pv"
    and d: "\<And>it. deref pv it =
        (if it - first go' \<in> set as then deref (p trial) (first gn + (it - first go'))
         else deref (p acc) it)"
    by blast
  define acc' where "acc' = acc\<lparr>p := pv, groups := (groups acc)[g := go']\<rparr>"
  have res: "sync acc trial c = Inr acc'"
    using ato atn asg cp by (simp add: sync_def ch acc'_def)
  have firsts: "first (groups acc' ! h) = first (groups acc ! h)" if "h < length (groups acc)" for h
    using that fgo' by (cases "h = g") (simp_all add: acc'_def go_def)
  have t2: "vbegin (p trial) \<le> first gn + 2 \<and> first gn + 2 < vend (p trial)"
    and t5: "vbegin (p trial) \<le> first gn + 5 \<and> first gn + 5 < vend (p trial)"
    using rng as by simp_all
  obtain x where x: "particle_at trial g 2 = Inr x"
    using t2 by (simp add: particle_at_def deref_def gn_def)
  obtain y where y: "particle_at trial g 5 = Inr y"
    using t5 by (simp add: particle_at_def deref_def gn_def)
  have a2: "particle_at acc' g 2 = Inr x"
    using x d [of "first go' + 2"] as fgo' g
    by (simp add: particle_at_def acc'_def gn_def)
  have a5: "particle_at acc' g 5 = Inr y"
    using y d [of "first go' + 5"] as fgo' g
    by (simp add: particle_at_def acc'_def gn_def)
  have frame: "particle_at acc' h k = particle_at acc h k"
    if hk: "h < length (groups acc) \<and> 0 \<le> k \<and> k < capacity (groups acc ! h) \<and>
            (h, k) \<noteq> (g, 2) \<and> (h, k) \<noteq> (g, 5)" for h k
  proof -
    have notin: "first (groups acc ! h) + k - first go' \<notin> set as"
    proof (cases "h = g")
      case True
      with hk have "k \<noteq> 2" "k \<noteq> 5" by simp_all
      then show ?thesis unfolding as fgo' using True by (simp add: go_def)
    next
      case False
      from wf g hk False have
        "trueend (groups acc ! h) \<le> first go \<or> trueend go \<le> first (groups acc ! h)"
        unfolding windows_in_place_def go_def by blast
      moreover have "first (groups acc ! h) + k < trueend (groups acc ! h)"
        using hk by (simp add: capacity_def)
      ultimately have "first (groups acc ! h) + k - first go < 0 \<or>
                       5 < first (groups acc ! h) + k - first go"
        using c5 hk by linarith
      then have "first (groups acc ! h) + k - first go \<noteq> 2"
        and "first (groups acc ! h) + k - first go \<noteq> 5" by linarith+
      then show ?thesis unfolding as fgo' by simp
    qed
    have "particle_at acc' h k = deref pv (first (groups acc ! h) + k)"
      using firsts hk by (simp add: particle_at_def acc'_def)
    also have "\<dots> = deref (p acc) (first (groups acc ! h) + k)"
      using d [of "first (groups acc ! h) + k"] notin by simp
    finally show ?thesis by (simp add: particle_at_def)
  qed
  have others: "groups acc' ! h = groups acc ! h" if "h < length (groups acc) \<and> h \<noteq> g" for h
    using that by (simp add: acc'_def)
  have misc: "length (groups acc') = length (groups acc)" "geo acc' = geo acc"
    "first (groups acc' ! g) = first (groups acc ! g)"
    "trueend (groups acc' ! g) = trueend (groups acc ! g)"
    using g fgo' by (simp_all add: acc'_def go_def)
  have fr: "\<forall>h k. h < length (groups acc) \<and> 0 \<le> k \<and> k < capacity (groups acc ! h) \<and>
                  (h, k) \<noteq> (g, 2) \<and> (h, k) \<noteq> (g, 5) \<longrightarrow>
                  particle_at acc' h k = particle_at acc h k"
    using frame by (intro allI impI)
  have ot: "\<forall>h. h < length (groups acc) \<and> h \<noteq> g \<longrightarrow> groups acc' ! h = groups acc ! h"
    using others by (intro allI impI)
  have concl: "sync acc trial c = Inr acc' \<and>
           particle_at trial g 2 = Inr x \<and> particle_at acc' g 2 = Inr x \<and>
           particle_at trial g 5 = Inr y \<and> particle_at acc' g 5 = Inr y \<and>
           (\<forall>h k. h < length (groups acc) \<and> 0 \<le> k \<and> k < capacity (groups acc ! h) \<and>
                  (h, k) \<noteq> (g, 2) \<and> (h, k) \<noteq> (g, 5) \<longrightarrow>
                  particle_at acc' h k = particle_at acc h k) \<and>
           length (groups acc') = length (groups acc) \<and>
           (\<forall>h. h < length (groups acc) \<and> h \<noteq> g \<longrightarrow> groups acc' ! h = groups acc ! h) \<and>
           first (groups acc' ! g) = first (groups acc ! g) \<and>
           trueend (groups acc' ! g) = trueend (groups acc ! g) \<and>
           geo acc' = geo acc"
    by (intro conjI res x a2 y a5 fr ot misc)
  show ?thesis
    by (rule exI [of _ acc'], rule exI [of _ x], rule exI [of _ y]) (rule concl)
qed

theorem sync_touched_offsets_witness:
  "same_topology
     \<lparr>p = \<lparr>base = 0, cap = 8, elems = [10, 11, 12, 13, 14, 15, 16, 17 :: int]\<rparr>,
       groups = [Group 0 2, Group 2 8], geo = ()\<rparr>
     \<lparr>p = \<lparr>base = 100, cap = 8, elems = [10, 11, 12, 13, 24, 15, 16, 27 :: int]\<rparr>,
       groups = [Group 100 102, Group 102 108], geo = ()\<rparr> \<and>
   windows_in_place
     \<lparr>p = \<lparr>base = 0, cap = 8, elems = [10, 11, 12, 13, 14, 15, 16, 17 :: int]\<rparr>,
       groups = [Group 0 2, Group 2 8], geo = ()\<rparr> \<and>
   (1::nat) < length (groups
     \<lparr>p = \<lparr>base = 0, cap = 8, elems = [10, 11, 12, 13, 14, 15, 16, 17 :: int]\<rparr>,
       groups = [Group 0 2, Group 2 8], geo = ()\<rparr>) \<and>
   sync
     \<lparr>p = \<lparr>base = 0, cap = 8, elems = [10, 11, 12, 13, 14, 15, 16, 17 :: int]\<rparr>,
       groups = [Group 0 2, Group 2 8], geo = ()\<rparr>
     \<lparr>p = \<lparr>base = 100, cap = 8, elems = [10, 11, 12, 13, 24, 15, 16, 27 :: int]\<rparr>,
       groups = [Group 100 102, Group 102 108], geo = ()\<rparr>
     \<lparr>dV = 0, touched_groups =
        [\<lparr>index = 1, all = False, atoms = [2, 5], activated = [], deactivated = []\<rparr>]\<rparr>
   = Inr
     \<lparr>p = \<lparr>base = 0, cap = 8, elems = [10, 11, 12, 13, 24, 15, 16, 27 :: int]\<rparr>,
       groups = [Group 0 2, (Group 2 8)\<lparr>second := 14\<rparr>], geo = ()\<rparr> \<and>
   particle_at
     \<lparr>p = \<lparr>base = 0, cap = 8, elems = [10, 11, 12, 13, 24, 15, 16, 27 :: int]\<rparr>,
       groups = [Group 0 2, (Group 2 8)\<lparr>second := 14\<rparr>], geo = ()\<rparr> 1 2 = Inr 24 \<and>
   particle_at
     \<lparr>p = \<lparr>base = 0, cap = 8, elems = [10, 11, 12, 13, 24, 15, 16, 27 :: int]\<rparr>,
       groups = [Group 0 2, (Group 2 8)\<lparr>second := 14\<rparr>], geo = ()\<rparr> 1 5 = Inr 27 \<and>
   particle_at
     \<lparr>p = \<lparr>base = 0, cap = 8, elems = [10, 11, 12, 13, 24, 15, 16, 27 :: int]\<rparr>,
       groups = [Group 0 2, (Group 2 8)\<lparr>second := 14\<rparr>], geo = ()\<rparr> 1 3 = Inr 15 \<and>
   particle_at
     \<lparr>p = \<lparr>base = 0, cap = 8, elems = [10, 11, 12, 13, 24, 15, 16, 27 :: int]\<rparr>,
       groups = [Group 0 2, (Group 2 8)\<lparr>second := 14\<rparr>], geo = ()\<rparr> 0 1 = Inr 11"
proof -
  let ?A = "\<lparr>p = \<lparr>base = 0, cap = 8, elems = [10, 11, 12, 13, 14, 15, 16, 17 :: int]\<rparr>,
       groups = [Group 0 2, Group 2 8], geo = ()\<rparr>"
  let ?T = "\<lparr>p = \<lparr>base = 100, cap = 8, elems = [10, 11, 12, 13, 24, 15, 16, 27 :: int]\<rparr>,
       groups = [Group 100 102, Group 102 108], geo = ()\<rparr>"
  let ?C = "\<lparr>dV = 0, touched_groups =
        [\<lparr>index = 1, all = False, atoms = [2, 5], activated = [], deactivated = []\<rparr>]\<rparr>"
  have h1: "same_topology ?A ?T"
    by (simp add: same_topology_def topology_def Group_def vbegin_def)
  have h2: "windows_in_place ?A"
    by (simp add: windows_in_place_def Group_def vbegin_def vend_def less_Suc_eq numeral_2_eq_2)
  have h3: "(1::nat) < length (groups ?A)" by simp
  have h4: "5 < capacity (groups ?A ! 1)" by (simp add: capacity_def Group_def)
  have h5: "touched_groups ?C =
      [\<lparr>index = int 1, all = False, atoms = [2, 5], activated = [], deactivated = []\<rparr>]"
    by simp
  have h6: "set [2, 5 :: int] = {2, 5}" by simp
  from sync_touched_offsets [OF h1 h2 h3 h4 h5 h6] obtain acc' x y where
    r: "sync ?A ?T ?C = Inr acc'"
       "particle_at ?T 1 2 = Inr x" "particle_at acc' 1 2 = Inr x"
       "particle_at ?T 1 5 = Inr y" "particle_at acc' 1 5 = Inr y"
    and fr: "\<And>h k. h < length (groups ?A) \<and> 0 \<le> k \<and> k < capacity (groups ?A ! h) \<and>
                  (h, k) \<noteq> (1, 2) \<and> (h, k) \<noteq> (1, 5) \<Longrightarrow>
                  particle_at acc' h k = particle_at ?A h k"
    by blast
  have e: "sync ?A ?T ?C = Inr \<lparr>p = \<lparr>base = 0, cap = 8, elems = [10, 11, 12, 13, 24, 15, 16, 27 :: int]\<rparr>,
       groups = [Group 0 2, (Group 2 8)\<lparr>second := 14\<rparr>], geo = ()\<rparr>"
    by (simp add: sync_def at_idx_def group_assign_def resize_def capacity_def size_r_def
        Group_def deref_def assign_def vbegin_def vend_def)
  with r(1) have acc': "acc' = \<lparr>p = \<lparr>base = 0, cap = 8, elems = [10, 11, 12, 13, 24, 15, 16, 27 :: int]\<rparr>,
       groups = [Group 0 2, (Group 2 8)\<lparr>second := 14\<rparr>], geo = ()\<rparr>" by simp
  have x: "x = 24" using r(2) by (simp add: particle_at_def deref_def Group_def vbegin_def vend_def)
  have y: "y = 27" using r(4) by (simp add: particle_at_def deref_def Group_def vbegin_def vend_def)
  have f1: "particle_at acc' 1 3 = Inr 15"
    using fr [of 1 3] by (simp add: particle_at_def deref_def Group_def vbegin_def vend_def capacity_def)
  have f2: "particle_at acc' 0 1 = Inr 11"
    using fr [of 0 1] by (simp add: particle_at_def deref_def Group_def vbegin_def vend_def capacity_def)
  show ?thesis
    using h1 h2 h3 e r(3,5) f1 f2 unfolding acc' x y by (intro conjI)
qed

section \<open>Conformation weights\<close>

text \<open>
  Claim C8 says that each stored conformation is selected with probability proportional to
  the weight given when it was added. \<^verbatim>\<open>pushConformation\<close> rebuilds the distribution from
  \<^verbatim>\<open>confDist.probabilities()\<close>, which are normalised, and the new weight: three conformations
  pushed with the default weight \<open>1\<close> are selected with probabilities \<open>1/4, 1/4, 1/2\<close>.
\<close>

theorem pushConformation_unit_weights:
  "map_sum id confDist (pushConformations dbg MoleculeData [(a, 1), (b, 1), (c, 1)])
     = Inr [1 / 4, 1 / 4, 1 / 2]"
  by (simp add: pushConformation_def MoleculeData_def discrete_distribution_def)

section \<open>Ids of the type lists\<close>


lemma from_json_entries_returns:
  assumes "\<forall>kv \<in> set kvs. \<exists>t. conv (JObject [kv]) = Inr t"
  shows "\<exists>v'. from_json_entries conv kvs v = Inr v'"
  using assms
proof (induction kvs arbitrary: v)
  case Nil
  then show ?case by simp
next
  case (Cons kv kvs)
  obtain key val where kv: "kv = (key, val)" by (cases kv)
  from Cons.prems kv obtain t where "conv (JObject [(key, val)]) = Inr t" by auto
  moreover from Cons.prems have "\<forall>kv \<in> set kvs. \<exists>t. conv (JObject [kv]) = Inr t" by simp
  ultimately show ?case using Cons.IH kv by (simp add: Let_def)
qed






section \<open>Capture and restore of the random source\<close>

lemma map_of_set_key: "map_of (set_key k x kvs) k = Some x"
  by (induction kvs) auto

lemma to_json_Random_null:
  "to_json_Random L JNull r = Inr (JObject [(''randomseed'', JString (put L (engine r)))])"
  by (simp add: to_json_Random_def json_set_def)

lemma to_json_Random_result:
  assumes "to_json_Random L j0 r = Inr j"
  shows "\<exists>kvs. j = JObject kvs \<and> map_of kvs ''randomseed'' = Some (JString (put L (engine r)))"
  using assms
  by (cases j0) (auto simp: to_json_Random_def json_set_def map_of_set_key)

text \<open>
  Claim C9: for every \<^verbatim>\<open>Random\<close> whose engine state the library's stream operators write and
  read back faithfully (what the C++ standard requires of \<^verbatim>\<open>operator<<\<close> and \<^verbatim>\<open>operator>>\<close>
  of an engine; the text of an engine is neither empty nor the word \<open>hardware\<close>), restoring
  any second \<^verbatim>\<open>Random\<close> from the token that \<^verbatim>\<open>to_json\<close> wrote succeeds and yields a
  generator with the same engine state, whose every sequence of draws equals that of the
  original from that point.
\<close>

theorem Random_restored_from_token:
  fixes r r2 :: "'e Random"
  assumes "get L (put L (engine r)) = Some (engine r)"
    and "put L (engine r) \<noteq> ''hardware''" and "put L (engine r) \<noteq> []"
    and "to_json_Random L j0 r = Inr j"
  shows "\<exists>r'. from_json_Random L hw j r2 = Inr r' \<and> engine r' = engine r \<and>
           draws L r' ds = draws L r ds"
proof -
  from to_json_Random_result [OF assms(4)] obtain kvs where
    j: "j = JObject kvs" "map_of kvs ''randomseed'' = Some (JString (put L (engine r)))"
    by blast
  have "from_json_Random L hw j r2 = Inr (r2\<lparr>engine := engine r\<rparr>)"
    using j assms(1-3) by (simp add: from_json_Random_def value_string_def)
  moreover have "r2\<lparr>engine := engine r\<rparr> = r" by simp
  ultimately show ?thesis by simp
qed

theorem Random_restored_from_token_witness:
  "get \<lparr>put = (\<lambda>n. replicate (Suc n) (CHR ''1'')), get = (\<lambda>s. Some (length s - 1)),
        canonical = (\<lambda>n. (0, Suc n)), uniform_int = (\<lambda>lo hi n. (lo, n + 2))\<rparr>
     (put \<lparr>put = (\<lambda>n. replicate (Suc n) (CHR ''1'')), get = (\<lambda>s. Some (length s - 1)),
        canonical = (\<lambda>n. (0, Suc n)), uniform_int = (\<lambda>lo hi n. (lo, n + 2))\<rparr>
        (engine \<lparr>engine = 3 :: nat\<rparr>)) = Some (engine \<lparr>engine = 3 :: nat\<rparr>) \<and>
   to_json_Random \<lparr>put = (\<lambda>n. replicate (Suc n) (CHR ''1'')), get = (\<lambda>s. Some (length s - 1)),
        canonical = (\<lambda>n. (0, Suc n)), uniform_int = (\<lambda>lo hi n. (lo, n + 2))\<rparr>
      JNull \<lparr>engine = 3 :: nat\<rparr> = Inr (JObject [(''randomseed'', JString ''1111'')]) \<and>
   (\<exists>r'. from_json_Random \<lparr>put = (\<lambda>n. replicate (Suc n) (CHR ''1'')), get = (\<lambda>s. Some (length s - 1)),
        canonical = (\<lambda>n. (0, Suc n)), uniform_int = (\<lambda>lo hi n. (lo, n + 2))\<rparr>
        0 (JObject [(''randomseed'', JString ''1111'')]) \<lparr>engine = 42\<rparr> = Inr r' \<and>
      engine r' = engine \<lparr>engine = 3 :: nat\<rparr> \<and>
      draws \<lparr>put = (\<lambda>n. replicate (Suc n) (CHR ''1'')), get = (\<lambda>s. Some (length s - 1)),
        canonical = (\<lambda>n. (0, Suc n)), uniform_int = (\<lambda>lo hi n. (lo, n + 2))\<rparr> r' [Call, Range 0 9, Call]
      = draws \<lparr>put = (\<lambda>n. replicate (Suc n) (CHR ''1'')), get = (\<lambda>s. Some (length s - 1)),
        canonical = (\<lambda>n. (0, Suc n)), uniform_int = (\<lambda>lo hi n. (lo, n + 2))\<rparr>
          \<lparr>engine = 3 :: nat\<rparr> [Call, Range 0 9, Call])"
proof -
  let ?L = "\<lparr>put = (\<lambda>n. replicate (Suc n) (CHR ''1'')), get = (\<lambda>s. Some (length s - 1)),
        canonical = (\<lambda>n. (0, Suc n)), uniform_int = (\<lambda>lo hi n. (lo, n + 2))\<rparr> :: nat engine_lib"
  let ?r = "\<lparr>engine = 3 :: nat\<rparr>"
  have h1: "get ?L (put ?L (engine ?r)) = Some (engine ?r)" by simp
  have h2: "put ?L (engine ?r) \<noteq> ''hardware''" by (simp add: numeral_3_eq_3)
  have h3: "put ?L (engine ?r) \<noteq> []" by simp
  have h4: "to_json_Random ?L JNull ?r = Inr (JObject [(''randomseed'', JString ''1111'')])"
    by (simp add: to_json_Random_def json_set_def numeral_3_eq_3)
  from Random_restored_from_token [OF h1 h2 h3 h4, of 0 "\<lparr>engine = 42\<rparr>" "[Call, Range 0 9, Call]"]
    h1 h4 show ?thesis by blast
qed

end
